theory Spec2Isabelle
  imports
    Main
    "HOL-Library.Char_ord"
    "HOL-Library.List_Lexorder"
    "HOL-Library.Product_Lexorder"
    "HOL-Library.Multiset"
begin

section \<open>Strings and the validation layer\<close>

text \<open>
  A JavaScript string is a sequence of UTF-16 code units.  The model uses \<^typ>\<open>string\<close>;
  a \<^typ>\<open>char\<close> stands for a code unit below \<open>0x100\<close> (Basic Latin and Latin-1
  Supplement).  SQLite compares \<open>TEXT\<close> values of the default \<open>BINARY\<close> collation
  byte by byte, a proper prefix being smaller; on this range that is the lexicographic
  order of the code units, which is the order of \<^typ>\<open>string\<close> used below.
\<close>

subsection \<open>Regular expressions\<close>

text \<open>
  The two patterns of \<open>server/index.js\<close> use character classes, literal characters,
  concatenation, the counted repetition \<open>{n}\<close> and \<open>+\<close> on a character class.
\<close>

definition is_space :: "char \<Rightarrow> bool" where
  \<comment> \<open>the class \<open>\s\<close>, on code units below \<open>0x100\<close>\<close>
  "is_space c = (c \<in> set [CHR 0x09, CHR 0x0A, CHR 0x0B, CHR 0x0C, CHR 0x0D, CHR 0x20, CHR 0xA0])"

datatype cls =
    Digit             \<comment> \<open>\<open>\d\<close>\<close>
  | Lit char          \<comment> \<open>a literal character, \<open>-\<close>, \<open>@\<close> or \<open>\.\<close>\<close>
  | NotSpaceAt        \<comment> \<open>\<open>[^\s@]\<close>\<close>

fun cls_ok :: "cls \<Rightarrow> char \<Rightarrow> bool" where
  "cls_ok Digit c = (CHR ''0'' \<le> c \<and> c \<le> CHR ''9'')"
| "cls_ok (Lit a) c = (c = a)"
| "cls_ok NotSpaceAt c = (\<not> is_space c \<and> c \<noteq> CHR ''@'')"

datatype rx =
    Atom cls          \<comment> \<open>one character of a class\<close>
  | Seq rx rx         \<comment> \<open>concatenation\<close>
  | Rep nat rx        \<comment> \<open>\<open>r{n}\<close>\<close>
  | Plus cls          \<comment> \<open>\<open>c+\<close>, greedy\<close>

text \<open>
  A backtracking matcher: \<open>run r s\<close> lists, in the order the engine tries them, the rests
  of \<open>s\<close> left after a match of \<open>r\<close> at the start of \<open>s\<close>.
\<close>

fun run_plus :: "cls \<Rightarrow> string \<Rightarrow> string list" where
  "run_plus c [] = []"
| "run_plus c (x # xs) = (if cls_ok c x then run_plus c xs @ [xs] else [])"

fun run :: "rx \<Rightarrow> string \<Rightarrow> string list" where
  "run (Atom c) s = (case s of [] \<Rightarrow> [] | x # xs \<Rightarrow> if cls_ok c x then [xs] else [])"
| "run (Seq r1 r2) s = concat (map (run r2) (run r1 s))"
| "run (Rep n r) s = ((\<lambda>ss. concat (map (run r) ss)) ^^ n) [s]"
| "run (Plus c) s = run_plus c s"

definition test :: "rx \<Rightarrow> string \<Rightarrow> bool" where
  \<comment> \<open>\<open>/^r$/.test(s)\<close>: without the \<open>m\<close> flag, \<open>^\<close> and \<open>$\<close> are the two ends of the input\<close>
  "test r s = ([] \<in> set (run r s))"

subsection \<open>The validators\<close>

definition date_re :: rx where
  \<comment> \<open>\<open>\d{4}-\d{2}-\d{2}\<close>\<close>
  "date_re =
     Seq (Rep 4 (Atom Digit)) (Seq (Atom (Lit CHR ''-''))
    (Seq (Rep 2 (Atom Digit)) (Seq (Atom (Lit CHR ''-'')) (Rep 2 (Atom Digit)))))"

definition email_re :: rx where
  \<comment> \<open>\<open>[^\s@]+@[^\s@]+\.[^\s@]+\<close>\<close>
  "email_re =
     Seq (Plus NotSpaceAt) (Seq (Atom (Lit CHR ''@''))
    (Seq (Plus NotSpaceAt) (Seq (Atom (Lit CHR ''.'')) (Plus NotSpaceAt))))"

definition toLowerChar :: "char \<Rightarrow> char" where
  \<comment> \<open>\<open>A\<close> to \<open>Z\<close> and the capital letters of Latin-1 move up by \<open>0x20\<close>, which sets bit 5\<close>
  "toLowerChar c =
     (if (CHR ''A'' \<le> c \<and> c \<le> CHR ''Z'') \<or> (CHR 0xC0 \<le> c \<and> c \<le> CHR 0xDE \<and> c \<noteq> CHR 0xD7)
      then (case c of Char b0 b1 b2 b3 b4 b5 b6 b7 \<Rightarrow> Char b0 b1 b2 b3 b4 True b6 b7)
      else c)"

definition toLowerCase :: "string \<Rightarrow> string" where
  "toLowerCase s = map toLowerChar s"

definition isValidEmail :: "string \<Rightarrow> bool" where
  "isValidEmail email_in = test email_re (toLowerCase email_in)"

definition isValidDate :: "string \<Rightarrow> bool" where
  "isValidDate dateStr = test date_re dateStr"

subsection \<open>What a pattern denotes\<close>

text \<open>
  The strings a pattern matches, as the textbook reads a regular expression: this is the
  meaning of ``\<open>s\<close> matches the pattern'', independent of any matching strategy.
\<close>

definition conc :: "string set \<Rightarrow> string set \<Rightarrow> string set" where
  "conc A B = {u @ v | u v. u \<in> A \<and> v \<in> B}"

fun lang_pow :: "nat \<Rightarrow> string set \<Rightarrow> string set" where
  "lang_pow 0 L = {[]}"
| "lang_pow (Suc n) L = conc L (lang_pow n L)"

fun lang :: "rx \<Rightarrow> string set" where
  "lang (Atom c) = {[x] | x. cls_ok c x}"
| "lang (Seq r1 r2) = conc (lang r1) (lang r2)"
| "lang (Rep n r) = lang_pow n (lang r)"
| "lang (Plus c) = {w. w \<noteq> [] \<and> list_all (cls_ok c) w}"

definition rests :: "string set \<Rightarrow> string \<Rightarrow> string set" where
  \<comment> \<open>what is left of \<open>s\<close> after a prefix in \<open>L\<close>\<close>
  "rests L s = {v. \<exists>u\<in>L. s = u @ v}"

definition is_digit :: "char \<Rightarrow> bool" where
  "is_digit c = (c \<in> set ''0123456789'')"

definition date_shaped :: "string \<Rightarrow> bool" where
  \<comment> \<open>four digits, a hyphen, two digits, a hyphen, two digits, and nothing else\<close>
  "date_shaped s =
     (case s of
        [y1, y2, y3, y4, h1, m1, m2, h2, d1, d2] \<Rightarrow>
          list_all is_digit [y1, y2, y3, y4, m1, m2, d1, d2] \<and> h1 = CHR ''-'' \<and> h2 = CHR ''-''
      | _ \<Rightarrow> False)"

section \<open>The persistent store\<close>

text \<open>
  The two tables of \<open>initDb\<close>.  Every column is \<open>TEXT NOT NULL\<close> except the
  \<open>INTEGER PRIMARY KEY AUTOINCREMENT\<close> of \<open>attendance\<close>; a table is the list of its
  rows in insertion order, and \<open>sqlite_sequence\<close> is the largest id handed out so far.
  The columns \<open>id\<close>, \<open>employee_id\<close> and \<open>created_at\<close> of \<open>attendance\<close> carry the
  prefix \<open>att_\<close>.
\<close>

record employee_row =
  employee_id :: string
  full_name :: string
  email :: string
  department :: string
  created_at :: string

record attendance_row =
  att_id :: nat
  att_employee_id :: string
  date :: string
  status :: string
  att_created_at :: string

record store =
  employees :: "employee_row list"
  attendance :: "attendance_row list"
  sqlite_sequence :: nat

definition initDb :: store where
  \<comment> \<open>\<open>CREATE TABLE IF NOT EXISTS\<close> on a fresh database file\<close>
  "initDb = \<lparr>employees = [], attendance = [], sqlite_sequence = 0\<rparr>"

subsection \<open>The statements the handlers run\<close>

definition select_employee_by_id :: "store \<Rightarrow> string \<Rightarrow> employee_row option" where
  \<comment> \<open>\<open>SELECT employee_id FROM employees WHERE employee_id = ?\<close>\<close>
  "select_employee_by_id db k = find (\<lambda>e. employee_id e = k) (employees db)"

definition select_employee_by_email :: "store \<Rightarrow> string \<Rightarrow> employee_row option" where
  \<comment> \<open>\<open>SELECT email FROM employees WHERE email = ?\<close>\<close>
  "select_employee_by_email db m = find (\<lambda>e. email e = m) (employees db)"

definition select_attendance_by_key :: "store \<Rightarrow> string \<Rightarrow> string \<Rightarrow> attendance_row option" where
  \<comment> \<open>\<open>SELECT id FROM attendance WHERE employee_id = ? AND date = ?\<close>\<close>
  "select_attendance_by_key db k d =
     find (\<lambda>a. att_employee_id a = k \<and> date a = d) (attendance db)"

definition insert_employee :: "store \<Rightarrow> employee_row \<Rightarrow> store option" where
  \<comment> \<open>\<open>INSERT INTO employees\<close>; \<open>None\<close> is the constraint error of \<open>PRIMARY KEY\<close> or of
      \<open>UNIQUE\<close> on \<open>email\<close>\<close>
  "insert_employee db r =
     (if list_ex (\<lambda>e. employee_id e = employee_id r) (employees db)
         \<or> list_ex (\<lambda>e. email e = email r) (employees db)
      then None
      else Some (db\<lparr>employees := employees db @ [r]\<rparr>))"

definition insert_attendance :: "store \<Rightarrow> string \<Rightarrow> string \<Rightarrow> string \<Rightarrow> string \<Rightarrow> store option" where
  \<comment> \<open>\<open>INSERT INTO attendance\<close>; \<open>None\<close> is the constraint error of
      \<open>UNIQUE(employee_id, date)\<close> or of the foreign key (\<open>PRAGMA foreign_keys = ON\<close>)\<close>
  "insert_attendance db k d st now =
     (if list_ex (\<lambda>a. att_employee_id a = k \<and> date a = d) (attendance db)
         \<or> \<not> list_ex (\<lambda>e. employee_id e = k) (employees db)
      then None
      else
        let i = Suc (fold max (map att_id (attendance db)) (sqlite_sequence db))
        in Some (db\<lparr>attendance := attendance db @
                   [\<lparr>att_id = i, att_employee_id = k, date = d, status = st, att_created_at = now\<rparr>],
                 sqlite_sequence := i\<rparr>))"

definition delete_employee :: "store \<Rightarrow> string \<Rightarrow> store" where
  \<comment> \<open>\<open>DELETE FROM employees WHERE employee_id = ?\<close>, with the \<open>ON DELETE CASCADE\<close> of
      \<open>attendance.employee_id\<close>\<close>
  "delete_employee db k =
     db\<lparr>employees := filter (\<lambda>e. employee_id e \<noteq> k) (employees db),
        attendance := filter (\<lambda>a. att_employee_id a \<noteq> k) (attendance db)\<rparr>"

definition order_by_desc :: "('a \<Rightarrow> 'k::linorder) \<Rightarrow> 'a list \<Rightarrow> 'a list" where
  \<comment> \<open>\<open>ORDER BY k DESC\<close>; SQL leaves the order of rows with equal keys open\<close>
  "order_by_desc k rows = rev (sort_key k rows)"

subsection \<open>The per-employee query of the summary\<close>

record summary_row =
  sum_employee_id :: string
  sum_full_name :: string
  present_days :: nat

definition join_on :: "employee_row \<Rightarrow> attendance_row \<Rightarrow> bool" where
  \<comment> \<open>\<open>ON e.employee_id = a.employee_id AND a.status = 'Present'\<close>\<close>
  "join_on e a = (employee_id e = att_employee_id a \<and> status a = ''Present'')"

definition left_join :: "employee_row list \<Rightarrow> attendance_row list \<Rightarrow> (employee_row \<times> attendance_row option) list" where
  \<comment> \<open>\<open>employees e LEFT JOIN attendance a ON ...\<close>: an employee without a partner row is
      kept once, with \<open>NULL\<close> for the columns of \<open>a\<close>\<close>
  "left_join es as =
     concat (map (\<lambda>e. case filter (join_on e) as of
                          [] \<Rightarrow> [(e, None)]
                        | ms \<Rightarrow> map (\<lambda>a. (e, Some a)) ms) es)"

definition group_by_employee_id :: "(employee_row \<times> attendance_row option) list \<Rightarrow> (employee_row \<times> attendance_row option) list list" where
  \<comment> \<open>\<open>GROUP BY e.employee_id\<close>\<close>
  "group_by_employee_id rows =
     map (\<lambda>k. filter (\<lambda>(e, a). employee_id e = k) rows) (remdups (map (\<lambda>(e, a). employee_id e) rows))"

definition aggregate :: "(employee_row \<times> attendance_row option) list \<Rightarrow> summary_row list" where
  \<comment> \<open>\<open>SELECT e.employee_id, e.full_name, COUNT(a.id)\<close> of one group; \<open>COUNT\<close> skips \<open>NULL\<close>\<close>
  "aggregate g =
     (case g of
        [] \<Rightarrow> []
      | (e, a) # rest \<Rightarrow>
          [\<lparr>sum_employee_id = employee_id e, sum_full_name = full_name e,
            present_days = length (filter (\<lambda>(e, a). a \<noteq> None) g)\<rparr>])"

definition perEmployee :: "store \<Rightarrow> summary_row list" where
  \<comment> \<open>\<open>ORDER BY present_days DESC, e.full_name ASC\<close> on the grouped rows\<close>
  "perEmployee db =
     sort_key (\<lambda>r. (- int (present_days r), sum_full_name r))
       (concat (map aggregate (group_by_employee_id (left_join (employees db) (attendance db)))))"

section \<open>The request handlers\<close>

text \<open>
  A response is the status code with the JSON body.  A field of a request body or of a
  query string is a string or absent (\<open>None\<close>, JavaScript's \<open>undefined\<close>); \<open>nowIso()\<close> is
  the argument \<open>now\<close>.  A handler runs from its first statement to its response without
  another request in between.
\<close>

record totals =
  total_employees :: nat
  total_attendance :: nat
  total_present :: nat

datatype body =
    Error string
  | Message string
  | Status string
  | Employees "employee_row list"
  | Records "attendance_row list"
  | Summary totals "summary_row list"

type_synonym response = "nat \<times> body"

definition get_health :: response where
  "get_health = (200, Status ''ok'')"

definition get_employees :: "store \<Rightarrow> response" where
  "get_employees db = (200, Employees (order_by_desc created_at (employees db)))"

definition get_summary :: "store \<Rightarrow> response" where
  "get_summary db =
     (let employeesRow = length (employees db);
          attendanceRow = length (attendance db);
          presentRow = length (filter (\<lambda>a. status a = ''Present'') (attendance db))
      in (200, Summary \<lparr>total_employees = employeesRow, total_attendance = attendanceRow,
                         total_present = presentRow\<rparr> (perEmployee db)))"

definition post_employees ::
  "string \<Rightarrow> string option \<Rightarrow> string option \<Rightarrow> string option \<Rightarrow> string option \<Rightarrow> store \<Rightarrow> response \<times> store" where
  "post_employees now employeeId fullName emailIn departmentIn db =
     (case (employeeId, fullName, emailIn, departmentIn) of
        (Some i, Some n, Some m, Some d) \<Rightarrow>
          if i = [] \<or> n = [] \<or> m = [] \<or> d = []
          then ((400, Error ''All fields are required.''), db)
          else if \<not> isValidEmail m
          then ((400, Error ''Email format is invalid.''), db)
          else if select_employee_by_id db i \<noteq> None
          then ((409, Error ''Employee ID already exists.''), db)
          else if select_employee_by_email db m \<noteq> None
          then ((409, Error ''Email already exists.''), db)
          else (case insert_employee db \<lparr>employee_id = i, full_name = n, email = m,
                                          department = d, created_at = now\<rparr> of
                  None \<Rightarrow> ((500, Error ''Failed to create employee.''), db)
                | Some db' \<Rightarrow> ((201, Message ''Employee created.''), db'))
      | _ \<Rightarrow> ((400, Error ''All fields are required.''), db))"

definition delete_employees :: "string \<Rightarrow> store \<Rightarrow> response \<times> store" where
  "delete_employees employeeId db =
     (case select_employee_by_id db employeeId of
        None \<Rightarrow> ((404, Error ''Employee not found.''), db)
      | Some existing \<Rightarrow> ((200, Message ''Employee deleted.''), delete_employee db employeeId))"

definition post_attendance ::
  "string \<Rightarrow> string option \<Rightarrow> string option \<Rightarrow> string option \<Rightarrow> store \<Rightarrow> response \<times> store" where
  "post_attendance now employeeId dateIn statusIn db =
     (case (employeeId, dateIn, statusIn) of
        (Some i, Some d, Some st) \<Rightarrow>
          if i = [] \<or> d = [] \<or> st = []
          then ((400, Error ''Employee ID, date, and status are required.''), db)
          else if \<not> isValidDate d
          then ((400, Error ''Date must be in YYYY-MM-DD format.''), db)
          else if st \<notin> set [''Present'', ''Absent'']
          then ((400, Error ''Status must be Present or Absent.''), db)
          else if select_employee_by_id db i = None
          then ((404, Error ''Employee not found.''), db)
          else if select_attendance_by_key db i d \<noteq> None
          then ((409, Error ''Attendance already recorded for this date.''), db)
          else (case insert_attendance db i d st now of
                  None \<Rightarrow> ((500, Error ''Failed to record attendance.''), db)
                | Some db' \<Rightarrow> ((201, Message ''Attendance recorded.''), db'))
      | _ \<Rightarrow> ((400, Error ''Employee ID, date, and status are required.''), db))"

definition date_filter ::
  "string option \<Rightarrow> (string \<Rightarrow> attendance_row \<Rightarrow> bool) \<Rightarrow> string \<Rightarrow> response + (attendance_row \<Rightarrow> bool) list" where
  \<comment> \<open>one block \<open>if (x) { if (!isValidDate(x)) return 400; where.push(...) }\<close>: the
      condition pushed, or the response returned\<close>
  "date_filter x cond msg =
     (case x of
        None \<Rightarrow> Inr []
      | Some v \<Rightarrow>
          if v = [] then Inr []
          else if \<not> isValidDate v then Inl (400, Error msg)
          else Inr [cond v])"

definition get_employee_attendance :: "string \<Rightarrow> string option \<Rightarrow> string option \<Rightarrow> store \<Rightarrow> response" where
  "get_employee_attendance employeeId startDate endDate db =
     (case select_employee_by_id db employeeId of
        None \<Rightarrow> (404, Error ''Employee not found.'')
      | Some employee \<Rightarrow>
          (case date_filter startDate (\<lambda>v a. date a \<ge> v) ''Start date must be in YYYY-MM-DD format.'' of
             Inl r \<Rightarrow> r
           | Inr w1 \<Rightarrow>
               (case date_filter endDate (\<lambda>v a. date a \<le> v) ''End date must be in YYYY-MM-DD format.'' of
                  Inl r \<Rightarrow> r
                | Inr w2 \<Rightarrow>
                    let where = [\<lambda>a. att_employee_id a = employeeId] @ w1 @ w2
                    in (200, Records (order_by_desc date
                          (filter (\<lambda>a. list_all (\<lambda>cond. cond a) where) (attendance db)))))))"

subsection \<open>The server as a state machine\<close>

datatype request =
    GetHealth
  | GetEmployees
  | GetSummary
  | PostEmployees "string option" "string option" "string option" "string option"
  | DeleteEmployees string
  | PostAttendance "string option" "string option" "string option"
  | GetEmployeeAttendance string "string option" "string option"

fun handle :: "string \<Rightarrow> request \<Rightarrow> store \<Rightarrow> response \<times> store" where
  "handle now GetHealth db = (get_health, db)"
| "handle now GetEmployees db = (get_employees db, db)"
| "handle now GetSummary db = (get_summary db, db)"
| "handle now (PostEmployees i n m d) db = post_employees now i n m d db"
| "handle now (DeleteEmployees i) db = delete_employees i db"
| "handle now (PostAttendance i d st) db = post_attendance now i d st db"
| "handle now (GetEmployeeAttendance i s e) db = (get_employee_attendance i s e db, db)"

fun serve :: "(string \<times> request) list \<Rightarrow> store \<Rightarrow> store" where
  \<comment> \<open>the store after a sequence of requests, each with the time it is served at\<close>
  "serve [] db = db"
| "serve ((now, rq) # rest) db = serve rest (snd (handle now rq db))"

definition store_ok :: "store \<Rightarrow> bool" where
  \<comment> \<open>the constraints the schema declares: the primary key of \<open>employees\<close>, \<open>UNIQUE\<close> on
      \<open>email\<close>, \<open>UNIQUE(employee_id, date)\<close> and the foreign key of \<open>attendance\<close>\<close>
  "store_ok db =
     (distinct (map employee_id (employees db))
      \<and> distinct (map email (employees db))
      \<and> distinct (map (\<lambda>a. (att_employee_id a, date a)) (attendance db))
      \<and> list_all (\<lambda>a. att_employee_id a \<in> set (map employee_id (employees db))) (attendance db))"

subsection \<open>Notions used to state the claims\<close>

definition falsy :: "string option \<Rightarrow> bool" where
  \<comment> \<open>\<open>!x\<close> for a field that is a string or \<open>undefined\<close>: the field is missing or empty\<close>
  "falsy x = (case x of None \<Rightarrow> True | Some v \<Rightarrow> v = [])"

definition demo_store :: store where
  \<comment> \<open>a store the server reaches from the empty database, for the concrete instances\<close>
  "demo_store =
     serve [(''t1'', PostEmployees (Some ''E1'') (Some ''Ann'') (Some ''ann@x.com'') (Some ''Eng'')),
            (''t2'', PostAttendance (Some ''E1'') (Some ''2024-01-01'') (Some ''Present'')),
            (''t3'', PostEmployees (Some ''E2'') (Some ''Bob'') (Some ''bob@x.com'') (Some ''Ops'')),
            (''t4'', PostAttendance (Some ''E1'') (Some ''2024-01-15'') (Some ''Absent'')),
            (''t5'', PostAttendance (Some ''E2'') (Some ''2024-01-15'') (Some ''Present'')),
            (''t6'', PostAttendance (Some ''E1'') (Some ''2024-01-25'') (Some ''Present''))] initDb"

definition summary_store :: store where
  \<comment> \<open>\<open>demo_store\<close> with a third employee, who has no attendance\<close>
  "summary_store =
     serve [(''t7'', PostEmployees (Some ''E3'') (Some ''Al'') (Some ''al@x.com'') (Some ''Eng''))]
       demo_store"

section \<open>The matcher computes the language of its pattern\<close>

lemma set_run_plus:
  "set (run_plus c s) = {v. \<exists>u. u \<noteq> [] \<and> list_all (cls_ok c) u \<and> s = u @ v}"
proof (induction s)
  case Nil
  then show ?case by simp
next
  case (Cons x xs)
  show ?case
  proof (cases "cls_ok c x")
    case False
    then show ?thesis
      by (auto simp: Cons_eq_append_conv)
  next
    case True
    have "{v. \<exists>u. u \<noteq> [] \<and> list_all (cls_ok c) u \<and> x # xs = u @ v}
        = insert xs {v. \<exists>u. u \<noteq> [] \<and> list_all (cls_ok c) u \<and> xs = u @ v}" (is "?L = ?R")
    proof (intro set_eqI iffI)
      fix v assume "v \<in> ?L"
      then obtain u where u: "u \<noteq> []" "list_all (cls_ok c) u" "x # xs = u @ v" by blast
      then obtain u' where u': "u = x # u'" "xs = u' @ v"
        by (cases u) auto
      show "v \<in> ?R"
      proof (cases "u' = []")
        case True
        with u' show ?thesis by simp
      next
        case False
        with u u' show ?thesis by auto
      qed
    next
      fix v assume "v \<in> ?R"
      then consider "v = xs" | u where "u \<noteq> []" "list_all (cls_ok c) u" "xs = u @ v"
        by blast
      then show "v \<in> ?L"
      proof cases
        case 1
        with True have "[x] \<noteq> [] \<and> list_all (cls_ok c) [x] \<and> x # xs = [x] @ v" by simp
        then show ?thesis by blast
      next
        case 2
        with True have "x # u \<noteq> [] \<and> list_all (cls_ok c) (x # u) \<and> x # xs = (x # u) @ v" by simp
        then show ?thesis by blast
      qed
    qed
    with True Cons show ?thesis by simp
  qed
qed

lemma set_iter:
  assumes "\<And>s. set (f s) = rests L s"
  shows "set (((\<lambda>ss. concat (map f ss)) ^^ n) ss) = (\<Union>s\<in>set ss. rests (lang_pow n L) s)"
proof (induction n arbitrary: ss)
  case 0
  then show ?case by (auto simp: rests_def)
next
  case (Suc n)
  have "set (((\<lambda>ss. concat (map f ss)) ^^ Suc n) ss)
      = set (((\<lambda>ss. concat (map f ss)) ^^ n) (concat (map f ss)))"
    by (simp only: funpow_Suc_right o_apply)
  also have "\<dots> = (\<Union>s\<in>set (concat (map f ss)). rests (lang_pow n L) s)"
    by (rule Suc.IH)
  also have "\<dots> = (\<Union>s\<in>set ss. \<Union>t\<in>rests L s. rests (lang_pow n L) t)"
    by (simp add: assms)
  also have "\<dots> = (\<Union>s\<in>set ss. rests (lang_pow (Suc n) L) s)"
    by (fastforce simp: rests_def conc_def)
  finally show ?case .
qed

lemma set_run: "set (run r s) = rests (lang r) s"
proof (induction r arbitrary: s)
  case (Atom c)
  then show ?case by (cases s) (auto simp: rests_def)
next
  case (Seq r1 r2)
  then show ?case by (fastforce simp: rests_def conc_def)
next
  case (Rep n r)
  then show ?case using set_iter [of "run r" "lang r" n "[s]"] by simp
next
  case (Plus c)
  then show ?case by (auto simp: set_run_plus rests_def)
qed

lemma test_iff_lang: "test r s \<longleftrightarrow> s \<in> lang r"
  by (auto simp: test_def set_run rests_def)

lemma is_digit_iff: "is_digit c \<longleftrightarrow> cls_ok Digit c"
  by (cases c) (simp add: is_digit_def, argo)

lemma conc_atom:
  "s \<in> conc (lang (Atom c)) B \<longleftrightarrow> (case s of [] \<Rightarrow> False | x # t \<Rightarrow> cls_ok c x \<and> t \<in> B)"
proof (cases s)
  case Nil
  then show ?thesis by (simp add: conc_def)
next
  case (Cons x t)
  have "s \<in> conc (lang (Atom c)) B \<longleftrightarrow> (\<exists>y v. x # t = [y] @ v \<and> cls_ok c y \<and> v \<in> B)"
    unfolding conc_def Cons lang.simps mem_Collect_eq by blast
  also have "\<dots> \<longleftrightarrow> cls_ok c x \<and> t \<in> B"
    by auto
  finally show ?thesis by (simp add: Cons)
qed

lemma conc_assoc: "conc (conc A B) C = conc A (conc B C)"
  unfolding conc_def
  by (intro set_eqI iffI; clarsimp) (metis append.assoc)+

lemma conc_eps_left: "conc {[]} B = B"
  by (auto simp: conc_def)

lemma in_atom: "s \<in> lang (Atom c) \<longleftrightarrow> (case s of [x] \<Rightarrow> cls_ok c x | _ \<Rightarrow> False)"
  by (auto split: list.splits)

lemma lang_date_re: "s \<in> lang date_re \<longleftrightarrow> date_shaped s"
  by (simp add: date_re_def date_shaped_def eval_nat_numeral conc_assoc conc_eps_left conc_atom in_atom
        is_digit_iff del: lang.simps(1) cls_ok.simps(1) split: list.splits) blast

section \<open>Claims about the validation layer\<close>

text \<open>
  Claim C8.  For every string \<open>s\<close>, \<open>isValidDate s\<close> is true exactly when \<open>s\<close> matches
  \<open>^\d{4}-\d{2}-\d{2}$\<close>: when \<open>s\<close> belongs to the language of the pattern, which is to say
  when \<open>s\<close> is four digits, a hyphen, two digits, a hyphen and two digits.  No calendar
  check is made: \<open>2024-02-30\<close> is accepted.
\<close>

theorem isValidDate_matches_pattern:
  "(isValidDate s \<longleftrightarrow> s \<in> lang date_re)
   \<and> (isValidDate s \<longleftrightarrow> date_shaped s)
   \<and> isValidDate ''2024-02-30''"
proof -
  have m: "isValidDate t \<longleftrightarrow> t \<in> lang date_re" for t
    by (simp add: isValidDate_def test_iff_lang)
  have "date_shaped ''2024-02-30''"
    by (simp add: date_shaped_def is_digit_def)
  then have "isValidDate ''2024-02-30''"
    by (simp add: m lang_date_re)
  with m show ?thesis
    by (simp add: lang_date_re)
qed

theorem isValidDate_matches_pattern_witness:
  "isValidDate ''2024-02-30'' \<and> date_shaped ''2024-02-30''
   \<and> \<not> isValidDate ''2024-2-30'' \<and> \<not> isValidDate ''2024-02-30 ''"
  using isValidDate_matches_pattern [of "''2024-02-30''", THEN conjunct2, THEN conjunct1]
    isValidDate_matches_pattern [of "''2024-2-30''", THEN conjunct2, THEN conjunct1]
    isValidDate_matches_pattern [of "''2024-02-30 ''", THEN conjunct2, THEN conjunct1]
  by (simp add: date_shaped_def is_digit_def)

section \<open>Facts about the statements and the handlers\<close>

lemma demo_store_eq:
  "demo_store =
     \<lparr>employees =
        [\<lparr>employee_id = ''E1'', full_name = ''Ann'', email = ''ann@x.com'', department = ''Eng'', created_at = ''t1''\<rparr>,
         \<lparr>employee_id = ''E2'', full_name = ''Bob'', email = ''bob@x.com'', department = ''Ops'', created_at = ''t3''\<rparr>],
      attendance =
        [\<lparr>att_id = 1, att_employee_id = ''E1'', date = ''2024-01-01'', status = ''Present'', att_created_at = ''t2''\<rparr>,
         \<lparr>att_id = 2, att_employee_id = ''E1'', date = ''2024-01-15'', status = ''Absent'', att_created_at = ''t4''\<rparr>,
         \<lparr>att_id = 3, att_employee_id = ''E2'', date = ''2024-01-15'', status = ''Present'', att_created_at = ''t5''\<rparr>,
         \<lparr>att_id = 4, att_employee_id = ''E1'', date = ''2024-01-25'', status = ''Present'', att_created_at = ''t6''\<rparr>],
      sqlite_sequence = 4\<rparr>"
  by code_simp

lemma select_employee_by_id_None:
  "select_employee_by_id db k = None \<longleftrightarrow> k \<notin> employee_id ` set (employees db)"
  by (auto simp: select_employee_by_id_def find_None_iff)

lemma select_employee_by_email_None:
  "select_employee_by_email db m = None \<longleftrightarrow> m \<notin> email ` set (employees db)"
  by (auto simp: select_employee_by_email_def find_None_iff)

lemma select_attendance_by_key_None:
  "select_attendance_by_key db k d = None \<longleftrightarrow>
     (k, d) \<notin> (\<lambda>a. (att_employee_id a, date a)) ` set (attendance db)"
  by (auto simp: select_attendance_by_key_def find_None_iff)

lemma insert_employee_fresh:
  "k \<notin> employee_id ` set (employees db) \<Longrightarrow> m \<notin> email ` set (employees db) \<Longrightarrow>
   insert_employee db \<lparr>employee_id = k, full_name = n, email = m, department = d, created_at = t\<rparr>
     = Some (db\<lparr>employees := employees db @
          [\<lparr>employee_id = k, full_name = n, email = m, department = d, created_at = t\<rparr>]\<rparr>)"
  by (auto simp: insert_employee_def list_ex_iff)

lemma post_employees_invalid:
  "falsy employeeId \<or> falsy fullName \<or> falsy emailIn \<or> falsy departmentIn
     \<or> (\<exists>m. emailIn = Some m \<and> \<not> isValidEmail m) \<Longrightarrow>
   fst (fst (post_employees now employeeId fullName emailIn departmentIn db)) = 400
   \<and> snd (post_employees now employeeId fullName emailIn departmentIn db) = db"
  by (auto simp: falsy_def post_employees_def split: option.splits)

lemma post_employees_conflict:
  assumes "i \<noteq> []" "n \<noteq> []" "m \<noteq> []" "d \<noteq> []" "isValidEmail m"
    and "i \<in> employee_id ` set (employees db) \<or> m \<in> email ` set (employees db)"
  shows "fst (fst (post_employees now (Some i) (Some n) (Some m) (Some d) db)) = 409
    \<and> snd (post_employees now (Some i) (Some n) (Some m) (Some d) db) = db"
  using assms
  by (auto simp: post_employees_def select_employee_by_id_None select_employee_by_email_None)

lemma post_employees_created:
  assumes "i \<noteq> []" "n \<noteq> []" "m \<noteq> []" "d \<noteq> []" "isValidEmail m"
    and "i \<notin> employee_id ` set (employees db)" "m \<notin> email ` set (employees db)"
  shows "post_employees now (Some i) (Some n) (Some m) (Some d) db =
     ((201, Message ''Employee created.''),
      db\<lparr>employees := employees db @
          [\<lparr>employee_id = i, full_name = n, email = m, department = d, created_at = now\<rparr>]\<rparr>)"
  using assms
  by (simp add: post_employees_def select_employee_by_id_None select_employee_by_email_None
      insert_employee_fresh)

text \<open>
  Claim C9.  In the attendance query the employee is looked up before any date is checked:
  a request naming an unknown employee is answered 404 whatever \<open>startDate\<close> and
  \<open>endDate\<close> are, malformed ones included.
\<close>

theorem unknown_employee_before_date_check:
  "employeeId \<notin> set (map employee_id (employees db)) \<Longrightarrow>
   get_employee_attendance employeeId startDate endDate db = (404, Error ''Employee not found.'')"
  using select_employee_by_id_None [of db employeeId]
  by (simp add: get_employee_attendance_def)

theorem unknown_employee_before_date_check_witness:
  "''E9'' \<notin> set (map employee_id (employees demo_store))
   \<and> \<not> isValidDate ''01/02/2024''
   \<and> get_employee_attendance ''E9'' (Some ''01/02/2024'') (Some ''tomorrow'') demo_store
       = (404, Error ''Employee not found.'')"
proof -
  have h: "''E9'' \<notin> set (map employee_id (employees demo_store))"
    by (simp add: demo_store_eq)
  have "\<not> isValidDate ''01/02/2024''"
    by code_simp
  with h unknown_employee_before_date_check [OF h] show ?thesis
    by simp
qed

text \<open>
  Claim C5, as stated, fails: it promises 409 for an \<open>employeeId\<close> that already exists
  regardless of the other field values, but the handler checks the fields first.  With the
  existing id \<open>E1\<close> and an empty \<open>fullName\<close> the answer is 400.
\<close>

theorem post_employees_conflict_counterexample:
  "select_employee_by_id demo_store ''E1'' \<noteq> None
   \<and> fst (post_employees ''t9'' (Some ''E1'') (Some '''') (Some ''new@x.com'') (Some ''Eng'') demo_store)
       = (400, Error ''All fields are required.'')"
  by (simp add: demo_store_eq select_employee_by_id_def post_employees_def)

text \<open>
  Claim C5, amended.  If one of the four fields is missing or empty, or the email fails
  the format check, Create answers 400 and writes nothing.  Otherwise, that is when all
  four fields are non-empty and the email is well formed, it answers 409 and writes
  nothing if the \<open>employee_id\<close> or the \<open>email\<close> already exists, whatever the
  \<open>fullName\<close> and \<open>department\<close>; and if neither exists it appends the employee with
  \<open>created_at\<close> set by the server and answers 201.
\<close>

theorem post_employees_outcomes:
  "let R = post_employees now employeeId fullName emailIn departmentIn db in
    (falsy employeeId \<or> falsy fullName \<or> falsy emailIn \<or> falsy departmentIn
            \<or> (\<exists>m. emailIn = Some m \<and> \<not> isValidEmail m)
          \<longrightarrow> fst (fst R) = 400 \<and> snd R = db)
    \<and> (\<forall>i n m d. employeeId = Some i \<and> fullName = Some n \<and> emailIn = Some m \<and> departmentIn = Some d
          \<and> i \<noteq> [] \<and> n \<noteq> [] \<and> m \<noteq> [] \<and> d \<noteq> [] \<and> isValidEmail m \<longrightarrow>
          (if i \<in> set (map employee_id (employees db)) \<or> m \<in> set (map email (employees db))
           then fst (fst R) = 409 \<and> snd R = db
           else R = ((201, Message ''Employee created.''),
                     db\<lparr>employees := employees db @
                        [\<lparr>employee_id = i, full_name = n, email = m, department = d,
                          created_at = now\<rparr>]\<rparr>)))"
  unfolding Let_def
  using post_employees_invalid [of employeeId fullName emailIn departmentIn now db]
  by (auto simp: post_employees_created post_employees_conflict)

theorem post_employees_outcomes_witness:
  "fst (fst (post_employees ''t9'' (Some ''E3'') None (Some ''cy@x.com'') (Some ''Ops'') demo_store)) = 400
   \<and> fst (fst (post_employees ''t9'' (Some ''E3'') (Some ''Cy'') (Some ''cy at x.com'') (Some ''Ops'') demo_store)) = 400
   \<and> fst (fst (post_employees ''t9'' (Some ''E1'') (Some ''Cy'') (Some ''cy@x.com'') (Some ''Ops'') demo_store)) = 409
   \<and> fst (fst (post_employees ''t9'' (Some ''E3'') (Some ''Cy'') (Some ''bob@x.com'') (Some ''Ops'') demo_store)) = 409
   \<and> fst (post_employees ''t9'' (Some ''E3'') (Some ''Cy'') (Some ''cy@x.com'') (Some ''Ops'') demo_store)
        = (201, Message ''Employee created.'')"
proof -
  have v: "isValidEmail ''cy@x.com''" "isValidEmail ''bob@x.com''" "\<not> isValidEmail ''cy at x.com''"
    by code_simp+
  have ids: "employee_id ` set (employees demo_store) = {''E1'', ''E2''}"
    and mails: "email ` set (employees demo_store) = {''ann@x.com'', ''bob@x.com''}"
    by (simp_all add: demo_store_eq)
  show ?thesis
    using post_employees_outcomes [of "''t9''" "Some ''E3''" None "Some ''cy@x.com''" "Some ''Ops''" demo_store]
      post_employees_outcomes [of "''t9''" "Some ''E3''" "Some ''Cy''" "Some ''cy at x.com''" "Some ''Ops''" demo_store]
      post_employees_outcomes [of "''t9''" "Some ''E1''" "Some ''Cy''" "Some ''cy@x.com''" "Some ''Ops''" demo_store]
      post_employees_outcomes [of "''t9''" "Some ''E3''" "Some ''Cy''" "Some ''bob@x.com''" "Some ''Ops''" demo_store]
      post_employees_outcomes [of "''t9''" "Some ''E3''" "Some ''Cy''" "Some ''cy@x.com''" "Some ''Ops''" demo_store]
    unfolding Let_def
    by (simp add: v ids mails falsy_def)
qed


lemma length_filter_order_by_desc:
  "length (filter P (order_by_desc k rows)) = length (filter P rows)"
proof -
  have "mset (filter P (order_by_desc k rows)) = mset (filter P rows)"
    by (simp add: order_by_desc_def)
  then show ?thesis
    by (metis size_mset)
qed

lemma set_order_by_desc: "set (order_by_desc k rows) = set rows"
  by (simp add: order_by_desc_def)

text \<open>
  Claim C7.  For every store and every valid employee payload (four non-empty fields, a
  well-formed email) whose \<open>employeeId\<close> and \<open>email\<close> do not occur in the store, Create
  answers 201 and the List that follows holds exactly one record with the payload's
  \<open>employeeId\<close>, \<open>fullName\<close>, \<open>email\<close> and \<open>department\<close>.
\<close>

theorem create_then_list_shows_one:
  assumes "i \<noteq> []" "n \<noteq> []" "m \<noteq> []" "d \<noteq> []" "isValidEmail m"
    and "i \<notin> set (map employee_id (employees db))"
    and "m \<notin> set (map email (employees db))"
  shows "\<exists>db' rows.
     post_employees now (Some i) (Some n) (Some m) (Some d) db = ((201, Message ''Employee created.''), db')
     \<and> get_employees db' = (200, Employees rows)
     \<and> length (filter (\<lambda>e. employee_id e = i \<and> full_name e = n \<and> email e = m \<and> department e = d) rows) = 1"
proof -
  let ?new = "\<lparr>employee_id = i, full_name = n, email = m, department = d, created_at = now\<rparr>"
  let ?db' = "db\<lparr>employees := employees db @ [?new]\<rparr>"
  let ?P = "\<lambda>e. employee_id e = i \<and> full_name e = n \<and> email e = m \<and> department e = d"
  have created: "post_employees now (Some i) (Some n) (Some m) (Some d) db = ((201, Message ''Employee created.''), ?db')"
    using assms by (simp add: post_employees_created)
  have "filter ?P (employees db) = []"
    using assms(6) by (auto simp: filter_empty_conv)
  then have "length (filter ?P (employees ?db')) = 1"
    by simp
  then have "length (filter ?P (order_by_desc created_at (employees ?db'))) = 1"
    by (simp only: length_filter_order_by_desc)
  with created show ?thesis
    unfolding get_employees_def by blast
qed

theorem create_then_list_shows_one_witness:
  "\<exists>db' rows.
     post_employees ''t9'' (Some ''E3'') (Some ''Cy'') (Some ''cy@x.com'') (Some ''Ops'') demo_store
       = ((201, Message ''Employee created.''), db')
     \<and> get_employees db' = (200, Employees rows)
     \<and> length (filter (\<lambda>e. employee_id e = ''E3'' \<and> full_name e = ''Cy'' \<and> email e = ''cy@x.com''
                             \<and> department e = ''Ops'') rows) = 1"
proof -
  have v: "isValidEmail ''cy@x.com''"
    by code_simp
  have i: "''E3'' \<notin> set (map employee_id (employees demo_store))"
    and m: "''cy@x.com'' \<notin> set (map email (employees demo_store))"
    by (simp_all add: demo_store_eq)
  show ?thesis
    by (rule create_then_list_shows_one [OF _ _ _ _ v i m]) simp_all
qed



lemma isValidEmail_nonempty: "isValidEmail m \<Longrightarrow> m \<noteq> []"
  by (auto simp: isValidEmail_def toLowerCase_def test_def email_re_def)

lemma isValidEmail_toLowerCase:
  "toLowerCase m1 = toLowerCase m2 \<Longrightarrow> isValidEmail m1 = isValidEmail m2"
  by (simp add: isValidEmail_def)

text \<open>
  Claim C10.  The lookup \<open>WHERE email = ?\<close> and the \<open>UNIQUE\<close> constraint compare emails
  exactly, while \<open>isValidEmail\<close> lowers the case first.  So two employees with distinct
  ids whose emails differ only in letter case (equal after \<open>toLowerCase\<close>, different as
  strings) are both created with 201, from any store that holds neither id nor email;
  the second email is well formed because the first is.
\<close>

theorem emails_differing_in_case_both_created:
  assumes "i1 \<noteq> []" "n1 \<noteq> []" "d1 \<noteq> []" "i2 \<noteq> []" "n2 \<noteq> []" "d2 \<noteq> []"
    and "isValidEmail m1"
    and "toLowerCase m1 = toLowerCase m2" "m1 \<noteq> m2" "i1 \<noteq> i2"
    and "i1 \<notin> set (map employee_id (employees db))" "i2 \<notin> set (map employee_id (employees db))"
    and "m1 \<notin> set (map email (employees db))" "m2 \<notin> set (map email (employees db))"
  shows "\<exists>db1 db2.
     post_employees t1 (Some i1) (Some n1) (Some m1) (Some d1) db = ((201, Message ''Employee created.''), db1)
     \<and> post_employees t2 (Some i2) (Some n2) (Some m2) (Some d2) db1 = ((201, Message ''Employee created.''), db2)
     \<and> employees db2 = employees db @
          [\<lparr>employee_id = i1, full_name = n1, email = m1, department = d1, created_at = t1\<rparr>,
           \<lparr>employee_id = i2, full_name = n2, email = m2, department = d2, created_at = t2\<rparr>]"
proof -
  let ?r1 = "\<lparr>employee_id = i1, full_name = n1, email = m1, department = d1, created_at = t1\<rparr>"
  let ?db1 = "db\<lparr>employees := employees db @ [?r1]\<rparr>"
  have v2: "isValidEmail m2"
    using assms(7) isValidEmail_toLowerCase [OF assms(8)] by simp
  have ne: "m1 \<noteq> []" "m2 \<noteq> []"
    using assms(7) v2 by (auto dest: isValidEmail_nonempty)
  have first: "post_employees t1 (Some i1) (Some n1) (Some m1) (Some d1) db
      = ((201, Message ''Employee created.''), ?db1)"
    using assms(1-3,7,11,13) ne(1) by (simp add: post_employees_created)
  have "i2 \<notin> employee_id ` set (employees ?db1)" "m2 \<notin> email ` set (employees ?db1)"
    using assms by auto
  then have second: "post_employees t2 (Some i2) (Some n2) (Some m2) (Some d2) ?db1
      = ((201, Message ''Employee created.''),
         ?db1\<lparr>employees := employees ?db1 @
           [\<lparr>employee_id = i2, full_name = n2, email = m2, department = d2, created_at = t2\<rparr>]\<rparr>)"
    using assms ne v2 by (simp add: post_employees_created)
  from first second show ?thesis
    by simp
qed

theorem emails_differing_in_case_both_created_witness:
  "toLowerCase ''Ann@X.com'' = toLowerCase ''ann@x.com'' \<and> ''Ann@X.com'' \<noteq> ''ann@x.com''
   \<and> (\<exists>db1 db2.
     post_employees ''t1'' (Some ''E1'') (Some ''Ann'') (Some ''Ann@X.com'') (Some ''Eng'') initDb
        = ((201, Message ''Employee created.''), db1)
     \<and> post_employees ''t2'' (Some ''E2'') (Some ''Ann B'') (Some ''ann@x.com'') (Some ''Ops'') db1
        = ((201, Message ''Employee created.''), db2)
     \<and> employees db2 = employees initDb @
          [\<lparr>employee_id = ''E1'', full_name = ''Ann'', email = ''Ann@X.com'', department = ''Eng'', created_at = ''t1''\<rparr>,
           \<lparr>employee_id = ''E2'', full_name = ''Ann B'', email = ''ann@x.com'', department = ''Ops'', created_at = ''t2''\<rparr>])"
proof -
  have v: "isValidEmail ''Ann@X.com''"
    by code_simp
  have l: "toLowerCase ''Ann@X.com'' = toLowerCase ''ann@x.com''"
    by (simp add: toLowerCase_def toLowerChar_def)
  show ?thesis
    using l emails_differing_in_case_both_created [OF _ _ _ _ _ _ v l, of "''E1''" "''Ann''" "''Eng''" "''E2''" "''Ann B''" "''Ops''" initDb "''t1''" "''t2''"]
    by (simp add: initDb_def)
qed


lemma date_filter_cases:
  "date_filter x cond msg =
     (if \<exists>v. x = Some v \<and> v \<noteq> [] \<and> \<not> isValidDate v then Inl (400, Error msg)
      else Inr (case x of None \<Rightarrow> [] | Some v \<Rightarrow> if v = [] then [] else [cond v]))"
  by (auto simp: date_filter_def split: option.splits)

lemma list_all_pushed:
  "list_all (\<lambda>c. c a) (case x of None \<Rightarrow> [] | Some v \<Rightarrow> if v = [] then [] else [cond v])
     \<longleftrightarrow> (\<forall>v. x = Some v \<and> v \<noteq> [] \<longrightarrow> cond v a)"
  by (auto split: option.splits)

lemma sorted_order_by_desc: "sorted (rev (map k (order_by_desc k rows)))"
  by (simp add: order_by_desc_def rev_map)

lemma mset_order_by_desc: "mset (order_by_desc k rows) = mset rows"
  by (simp add: order_by_desc_def)

lemma get_employee_attendance_known:
  assumes "employeeId \<in> employee_id ` set (employees db)"
  shows "get_employee_attendance employeeId startDate endDate db =
     (if \<exists>v. startDate = Some v \<and> v \<noteq> [] \<and> \<not> isValidDate v
      then (400, Error ''Start date must be in YYYY-MM-DD format.'')
      else if \<exists>v. endDate = Some v \<and> v \<noteq> [] \<and> \<not> isValidDate v
      then (400, Error ''End date must be in YYYY-MM-DD format.'')
      else (200, Records (order_by_desc date (filter (\<lambda>a. att_employee_id a = employeeId
              \<and> (\<forall>v. startDate = Some v \<and> v \<noteq> [] \<longrightarrow> v \<le> date a)
              \<and> (\<forall>v. endDate = Some v \<and> v \<noteq> [] \<longrightarrow> date a \<le> v)) (attendance db)))))"
proof -
  obtain e where "select_employee_by_id db employeeId = Some e"
    using assms select_employee_by_id_None [of db employeeId] by auto
  then show ?thesis
    by (simp add: get_employee_attendance_def date_filter_cases list_all_pushed)
qed

lemma get_employee_attendance_rows:
  assumes "get_employee_attendance k s e db = (200, Records rows)"
  shows "set rows \<subseteq> {a \<in> set (attendance db). att_employee_id a = k}"
proof (cases "k \<in> employee_id ` set (employees db)")
  case True
  show ?thesis
    using assms unfolding get_employee_attendance_known [OF True]
    by (auto simp: set_order_by_desc split: if_splits)
next
  case False
  then have "select_employee_by_id db k = None"
    by (simp add: select_employee_by_id_None)
  with assms show ?thesis
    by (simp add: get_employee_attendance_def)
qed

lemma unknown_employee_404:
  "employeeId \<notin> employee_id ` set (employees db) \<Longrightarrow>
   get_employee_attendance employeeId startDate endDate db = (404, Error ''Employee not found.'')"
  using select_employee_by_id_None [of db employeeId]
  by (simp add: get_employee_attendance_def)

text \<open>
  Claim C6, as stated, fails: it promises 400 for a supplied filter that fails the format
  check.  The handler tests \<open>if (endDate)\<close> first, so the empty string, which fails the
  format check, is ignored: \<open>?endDate=\<close> is answered 200 with the full history.
\<close>

theorem empty_filter_counterexample:
  "''E1'' \<in> set (map employee_id (employees demo_store))
   \<and> \<not> isValidDate ''''
   \<and> get_employee_attendance ''E1'' None (Some '''') demo_store =
       (200, Records
          [\<lparr>att_id = 4, att_employee_id = ''E1'', date = ''2024-01-25'', status = ''Present'', att_created_at = ''t6''\<rparr>,
           \<lparr>att_id = 2, att_employee_id = ''E1'', date = ''2024-01-15'', status = ''Absent'', att_created_at = ''t4''\<rparr>,
           \<lparr>att_id = 1, att_employee_id = ''E1'', date = ''2024-01-01'', status = ''Present'', att_created_at = ''t2''\<rparr>])"
proof -
  have "\<not> isValidDate ''''"
    by code_simp
  then show ?thesis
    by (simp add: demo_store_eq get_employee_attendance_def select_employee_by_id_def
        date_filter_def order_by_desc_def)
qed

text \<open>
  Claim C6, amended.  For a known employee, a \<open>startDate\<close> or \<open>endDate\<close> that is
  non-empty and fails the \<open>YYYY-MM-DD\<close> format check is answered 400.  Otherwise the
  answer is 200 with exactly the employee's records that satisfy \<open>date >= startDate\<close> and
  \<open>date <= endDate\<close>, each bound applied only when it is supplied and non-empty (an empty
  one is treated as not supplied), inclusive, ordered by date descending; with no filters
  this is the employee's full history.
\<close>

theorem query_by_employee_filters:
  assumes "employeeId \<in> set (map employee_id (employees db))"
  shows "((\<exists>v. (startDate = Some v \<or> endDate = Some v) \<and> v \<noteq> [] \<and> \<not> isValidDate v) \<longrightarrow>
            fst (get_employee_attendance employeeId startDate endDate db) = 400)
    \<and> (\<not> (\<exists>v. (startDate = Some v \<or> endDate = Some v) \<and> v \<noteq> [] \<and> \<not> isValidDate v) \<longrightarrow>
          (\<exists>rows. get_employee_attendance employeeId startDate endDate db = (200, Records rows)
             \<and> mset rows = mset (filter (\<lambda>a. att_employee_id a = employeeId
                    \<and> (\<forall>v. startDate = Some v \<and> v \<noteq> [] \<longrightarrow> v \<le> date a)
                    \<and> (\<forall>v. endDate = Some v \<and> v \<noteq> [] \<longrightarrow> date a \<le> v)) (attendance db))
             \<and> sorted (rev (map date rows))))
    \<and> (\<exists>rows. get_employee_attendance employeeId None None db = (200, Records rows)
             \<and> mset rows = mset (filter (\<lambda>a. att_employee_id a = employeeId) (attendance db))
             \<and> sorted (rev (map date rows)))"
proof -
  have known: "employeeId \<in> employee_id ` set (employees db)"
    using assms by simp
  have bad: "fst (get_employee_attendance employeeId startDate endDate db) = 400"
    if "\<exists>v. (startDate = Some v \<or> endDate = Some v) \<and> v \<noteq> [] \<and> \<not> isValidDate v"
    using that unfolding get_employee_attendance_known [OF known] by auto
  have good: "\<exists>rows. get_employee_attendance employeeId s e db = (200, Records rows)
             \<and> mset rows = mset (filter (\<lambda>a. att_employee_id a = employeeId
                    \<and> (\<forall>v. s = Some v \<and> v \<noteq> [] \<longrightarrow> v \<le> date a)
                    \<and> (\<forall>v. e = Some v \<and> v \<noteq> [] \<longrightarrow> date a \<le> v)) (attendance db))
             \<and> sorted (rev (map date rows))"
    if "\<not> (\<exists>v. (s = Some v \<or> e = Some v) \<and> v \<noteq> [] \<and> \<not> isValidDate v)" for s e
  proof -
    let ?sel = "filter (\<lambda>a. att_employee_id a = employeeId
              \<and> (\<forall>v. s = Some v \<and> v \<noteq> [] \<longrightarrow> v \<le> date a)
              \<and> (\<forall>v. e = Some v \<and> v \<noteq> [] \<longrightarrow> date a \<le> v)) (attendance db)"
    have "get_employee_attendance employeeId s e db = (200, Records (order_by_desc date ?sel))"
      using that unfolding get_employee_attendance_known [OF known] by auto
    moreover have "mset (order_by_desc date ?sel) = mset ?sel"
      by (rule mset_order_by_desc)
    moreover have "sorted (rev (map date (order_by_desc date ?sel)))"
      by (rule sorted_order_by_desc)
    ultimately show ?thesis
      by blast
  qed
  from good [of None None] bad good [of startDate endDate] show ?thesis
    by simp
qed


theorem query_by_employee_filters_witness:
  "''E1'' \<in> set (map employee_id (employees demo_store))
   \<and> fst (get_employee_attendance ''E1'' (Some ''2024/01/10'') None demo_store) = 400
   \<and> (\<exists>rows. get_employee_attendance ''E1'' (Some ''2024-01-10'') (Some ''2024-01-20'') demo_store
                 = (200, Records rows)
         \<and> mset rows = {#\<lparr>att_id = 2, att_employee_id = ''E1'', date = ''2024-01-15'',
                            status = ''Absent'', att_created_at = ''t4''\<rparr>#})"
proof -
  have h: "''E1'' \<in> set (map employee_id (employees demo_store))"
    by (simp add: demo_store_eq)
  have v: "\<not> isValidDate ''2024/01/10''" "isValidDate ''2024-01-10''" "isValidDate ''2024-01-20''"
    by code_simp+
  have bad: "fst (get_employee_attendance ''E1'' (Some ''2024/01/10'') None demo_store) = 400"
    using query_by_employee_filters [OF h, of "Some ''2024/01/10''" None] v by simp
  have "\<exists>rows. get_employee_attendance ''E1'' (Some ''2024-01-10'') (Some ''2024-01-20'') demo_store
                 = (200, Records rows)
         \<and> mset rows = mset (filter (\<lambda>a. att_employee_id a = ''E1''
                    \<and> ''2024-01-10'' \<le> date a \<and> date a \<le> ''2024-01-20'') (attendance demo_store))"
    using query_by_employee_filters [OF h, of "Some ''2024-01-10''" "Some ''2024-01-20''"] v
    by auto
  then show ?thesis
    using h bad by (simp add: demo_store_eq)
qed

text \<open>
  Claim C4.  Delete answers 404 and changes nothing when the \<open>employee_id\<close> is unknown.
  Otherwise it answers 200, removes the employee row and, by the cascade, every attendance
  row that references it and nothing else: the employee is absent from the List that
  follows, a Query for it is answered 404, and no Query on the resulting store returns a
  record of it.
\<close>

theorem delete_employee_cascades:
  "(employeeId \<notin> set (map employee_id (employees db)) \<longrightarrow>
      delete_employees employeeId db = ((404, Error ''Employee not found.''), db))
   \<and> (employeeId \<in> set (map employee_id (employees db)) \<longrightarrow>
      (\<exists>db'. delete_employees employeeId db = ((200, Message ''Employee deleted.''), db')
         \<and> employees db' = filter (\<lambda>e. employee_id e \<noteq> employeeId) (employees db)
         \<and> attendance db' = filter (\<lambda>a. att_employee_id a \<noteq> employeeId) (attendance db)
         \<and> (\<exists>rows. get_employees db' = (200, Employees rows)
               \<and> employeeId \<notin> set (map employee_id rows))
         \<and> (\<forall>s e. get_employee_attendance employeeId s e db' = (404, Error ''Employee not found.''))
         \<and> (\<forall>k s e rows. get_employee_attendance k s e db' = (200, Records rows) \<longrightarrow>
               employeeId \<notin> set (map att_employee_id rows))))"
proof (intro conjI impI)
  assume "employeeId \<notin> set (map employee_id (employees db))"
  then have "select_employee_by_id db employeeId = None"
    by (simp add: select_employee_by_id_None)
  then show "delete_employees employeeId db = ((404, Error ''Employee not found.''), db)"
    by (simp add: delete_employees_def)
next
  assume "employeeId \<in> set (map employee_id (employees db))"
  then obtain x where x: "select_employee_by_id db employeeId = Some x"
    using select_employee_by_id_None [of db employeeId] by auto
  let ?db' = "delete_employee db employeeId"
  have gone: "employeeId \<notin> set (map employee_id (employees ?db'))"
    by (auto simp: delete_employee_def)
  have "delete_employees employeeId db = ((200, Message ''Employee deleted.''), ?db')"
    using x by (simp add: delete_employees_def)
  moreover have "employees ?db' = filter (\<lambda>e. employee_id e \<noteq> employeeId) (employees db)"
    and "attendance ?db' = filter (\<lambda>a. att_employee_id a \<noteq> employeeId) (attendance db)"
    by (simp_all add: delete_employee_def)
  moreover have "\<exists>rows. get_employees ?db' = (200, Employees rows)
               \<and> employeeId \<notin> set (map employee_id rows)"
    using gone by (simp add: get_employees_def set_order_by_desc)
  moreover have "\<forall>s e. get_employee_attendance employeeId s e ?db' = (404, Error ''Employee not found.'')"
    using gone by (simp add: unknown_employee_404)
  moreover have "\<forall>k s e rows. get_employee_attendance k s e ?db' = (200, Records rows) \<longrightarrow>
               employeeId \<notin> set (map att_employee_id rows)"
  proof (intro allI impI)
    fix k s e rows
    assume "get_employee_attendance k s e ?db' = (200, Records rows)"
    then have "set rows \<subseteq> set (attendance ?db')"
      using get_employee_attendance_rows by blast
    then show "employeeId \<notin> set (map att_employee_id rows)"
      by (auto simp: delete_employee_def)
  qed
  ultimately show "\<exists>db'. delete_employees employeeId db = ((200, Message ''Employee deleted.''), db')
         \<and> employees db' = filter (\<lambda>e. employee_id e \<noteq> employeeId) (employees db)
         \<and> attendance db' = filter (\<lambda>a. att_employee_id a \<noteq> employeeId) (attendance db)
         \<and> (\<exists>rows. get_employees db' = (200, Employees rows)
               \<and> employeeId \<notin> set (map employee_id rows))
         \<and> (\<forall>s e. get_employee_attendance employeeId s e db' = (404, Error ''Employee not found.''))
         \<and> (\<forall>k s e rows. get_employee_attendance k s e db' = (200, Records rows) \<longrightarrow>
               employeeId \<notin> set (map att_employee_id rows))"
    by blast
qed

theorem delete_employee_cascades_witness:
  "delete_employees ''E9'' demo_store = ((404, Error ''Employee not found.''), demo_store)
   \<and> (\<exists>db'. delete_employees ''E1'' demo_store = ((200, Message ''Employee deleted.''), db')
         \<and> map employee_id (employees db') = [''E2'']
         \<and> map att_id (attendance db') = [3]
         \<and> get_employee_attendance ''E1'' None None db' = (404, Error ''Employee not found.''))"
proof -
  have absent: "''E9'' \<notin> set (map employee_id (employees demo_store))"
    and present: "''E1'' \<in> set (map employee_id (employees demo_store))"
    by (simp_all add: demo_store_eq)
  have first: "delete_employees ''E9'' demo_store = ((404, Error ''Employee not found.''), demo_store)"
    using delete_employee_cascades [of "''E9''" demo_store, THEN conjunct1] absent by (rule mp)
  obtain db' where d: "delete_employees ''E1'' demo_store = ((200, Message ''Employee deleted.''), db')"
    and e: "employees db' = filter (\<lambda>e. employee_id e \<noteq> ''E1'') (employees demo_store)"
    and a: "attendance db' = filter (\<lambda>a. att_employee_id a \<noteq> ''E1'') (attendance demo_store)"
    and q: "\<forall>s e. get_employee_attendance ''E1'' s e db' = (404, Error ''Employee not found.'')"
    using delete_employee_cascades [of "''E1''" demo_store, THEN conjunct2, THEN mp, OF present]
    by blast
  have ids: "map employee_id (employees db') = [''E2'']"
    unfolding e by (simp add: demo_store_eq)
  have atts: "map att_id (attendance db') = [3]"
    unfolding a by (simp add: demo_store_eq)
  have query: "get_employee_attendance ''E1'' None None db' = (404, Error ''Employee not found.'')"
    using q by (elim allE)
  show ?thesis
    by (intro conjI exI [of _ db']) (rule first d ids atts query)+
qed


section \<open>The constraints of the schema are invariant\<close>

lemma store_ok_initDb: "store_ok initDb"
  by (simp add: store_ok_def initDb_def)

lemma store_ok_insert_employee:
  assumes "insert_employee db r = Some db'" "store_ok db"
  shows "store_ok db'"
proof -
  have fresh: "employee_id r \<notin> employee_id ` set (employees db)" "email r \<notin> email ` set (employees db)"
    and db': "db' = db\<lparr>employees := employees db @ [r]\<rparr>"
    using assms(1) by (auto simp: insert_employee_def list_ex_iff split: if_splits)
  show ?thesis
    using assms(2) fresh unfolding db' store_ok_def
    by (auto simp: list_all_iff)
qed

lemma store_ok_insert_attendance:
  assumes "insert_attendance db k d st now = Some db'" "store_ok db"
  shows "store_ok db'"
proof -
  have fresh: "(k, d) \<notin> (\<lambda>a. (att_employee_id a, date a)) ` set (attendance db)"
    and known: "k \<in> employee_id ` set (employees db)"
    using assms(1) by (auto simp: insert_attendance_def list_ex_iff split: if_splits)
  obtain i where db': "db' = db\<lparr>attendance := attendance db @
        [\<lparr>att_id = i, att_employee_id = k, date = d, status = st, att_created_at = now\<rparr>],
      sqlite_sequence := i\<rparr>"
    using assms(1) by (auto simp: insert_attendance_def Let_def split: if_splits)
  show ?thesis
    using assms(2) fresh known unfolding db' store_ok_def
    by (auto simp: list_all_iff)
qed

lemma store_ok_delete_employee:
  assumes "store_ok db"
  shows "store_ok (delete_employee db k)"
  using assms unfolding store_ok_def delete_employee_def
  by (auto simp: list_all_iff distinct_map_filter)

lemma post_employees_store:
  "snd (post_employees now i n m d db) = db
   \<or> (\<exists>r. insert_employee db r = Some (snd (post_employees now i n m d db)))"
  by (auto simp: post_employees_def split: option.splits)

lemma post_attendance_store:
  "snd (post_attendance now i d st db) = db
   \<or> (\<exists>k d' st'. insert_attendance db k d' st' now = Some (snd (post_attendance now i d st db)))"
  by (auto simp: post_attendance_def split: option.splits)

lemma store_ok_handle: "store_ok db \<Longrightarrow> store_ok (snd (handle now rq db))"
proof (cases rq)
  case (PostEmployees i n m d)
  assume "store_ok db"
  then show ?thesis
    using post_employees_store [of now i n m d db] PostEmployees
    by (auto dest: store_ok_insert_employee)
next
  case (DeleteEmployees i)
  assume "store_ok db"
  then show ?thesis
    using DeleteEmployees
    by (auto simp: delete_employees_def store_ok_delete_employee split: option.splits)
next
  case (PostAttendance i d st)
  assume "store_ok db"
  then show ?thesis
    using post_attendance_store [of now i d st db] PostAttendance
    by (auto dest: store_ok_insert_attendance)
qed simp_all

text \<open>
  So every store the server reaches from the empty database, whatever the requests and
  the times they are served at, satisfies the constraints of the schema.
\<close>

lemma store_ok_serve: "store_ok db \<Longrightarrow> store_ok (serve rqs db)"
  by (induction rqs arbitrary: db) (auto simp: store_ok_handle)

lemma post_attendance_existing:
  assumes "a \<in> set (attendance db)"
  shows "snd (post_attendance now (Some (att_employee_id a)) (Some (date a)) statusIn db) = db"
    and "fst (fst (post_attendance now (Some (att_employee_id a)) (Some (date a)) statusIn db))
           \<in> {400, 404, 409}"
proof -
  have "select_attendance_by_key db (att_employee_id a) (date a) \<noteq> None"
    using assms by (simp add: select_attendance_by_key_None)
  then show "snd (post_attendance now (Some (att_employee_id a)) (Some (date a)) statusIn db) = db"
    and "fst (fst (post_attendance now (Some (att_employee_id a)) (Some (date a)) statusIn db))
           \<in> {400, 404, 409}"
    by (auto simp: post_attendance_def split: option.splits)
qed

lemma post_attendance_conflict:
  assumes "store_ok db" "a \<in> set (attendance db)"
    and "att_employee_id a \<noteq> []" "isValidDate (date a)" "st = ''Present'' \<or> st = ''Absent''"
  shows "post_attendance now (Some (att_employee_id a)) (Some (date a)) (Some st) db =
     ((409, Error ''Attendance already recorded for this date.''), db)"
proof -
  have k: "select_attendance_by_key db (att_employee_id a) (date a) \<noteq> None"
    using assms(2) by (simp add: select_attendance_by_key_None)
  have "att_employee_id a \<in> employee_id ` set (employees db)"
    using assms(1,2) by (auto simp: store_ok_def list_all_iff)
  then have e: "select_employee_by_id db (att_employee_id a) \<noteq> None"
    by (simp add: select_employee_by_id_None)
  have d: "date a \<noteq> []"
    using assms(4) by (auto simp: isValidDate_def test_iff_lang lang_date_re date_shaped_def)
  show ?thesis
    using assms(3-5) k e d by (auto simp: post_attendance_def)
qed


lemma post_attendance_bad_status:
  assumes "statusIn \<noteq> Some ''Present''" "statusIn \<noteq> Some ''Absent''"
  shows "fst (fst (post_attendance now employeeId dateIn statusIn db)) = 400"
  using assms by (auto simp: post_attendance_def split: option.splits)

text \<open>
  Claim C1, as stated, fails: it promises Conflict for every attendance request that names
  an existing (employeeId, date) pair.  The handler validates the request first, so a
  request for the existing pair (\<open>E1\<close>, \<open>2024-01-01\<close>) with the status \<open>Late\<close> is answered
  400; the store is unchanged there too.
\<close>

theorem record_existing_pair_counterexample:
  "\<lparr>att_id = 1, att_employee_id = ''E1'', date = ''2024-01-01'', status = ''Present'',
      att_created_at = ''t2''\<rparr> \<in> set (attendance demo_store)
   \<and> post_attendance ''t9'' (Some ''E1'') (Some ''2024-01-01'') (Some ''Late'') demo_store
       = ((400, Error ''Status must be Present or Absent.''), demo_store)"
proof -
  have "isValidDate ''2024-01-01''"
    by code_simp
  then show ?thesis
    by (simp add: demo_store_eq post_attendance_def)
qed

text \<open>
  Claim C1, amended.  In every store that satisfies the constraints of the schema, a
  request that passes validation (a non-empty \<open>employeeId\<close>, a well-formed date, the
  status \<open>Present\<close> or \<open>Absent\<close>) and names the pair of an existing record is answered
  Conflict; with a missing or any other status it is answered 400.  In both cases the store
  is unchanged, so the existing record keeps its id, status and \<open>created_at\<close> and nothing
  is inserted.  Every request leaves at most one record per (employee_id, date) pair, and
  so does every sequence of requests served from the empty database.
\<close>

theorem record_existing_pair_conflict:
  assumes "store_ok db" and "a \<in> set (attendance db)"
    and "att_employee_id a \<noteq> []" and "isValidDate (date a)"
  shows "(st = ''Present'' \<or> st = ''Absent'' \<longrightarrow>
            post_attendance now (Some (att_employee_id a)) (Some (date a)) (Some st) db
              = ((409, Error ''Attendance already recorded for this date.''), db))
    \<and> (statusIn \<noteq> Some ''Present'' \<and> statusIn \<noteq> Some ''Absent'' \<longrightarrow>
            fst (fst (post_attendance now (Some (att_employee_id a)) (Some (date a)) statusIn db)) = 400)
    \<and> snd (post_attendance now (Some (att_employee_id a)) (Some (date a)) statusIn db) = db
    \<and> distinct (map (\<lambda>r. (att_employee_id r, date r)) (attendance (snd (handle now' rq db))))
    \<and> distinct (map (\<lambda>r. (att_employee_id r, date r)) (attendance (serve rqs initDb)))"
proof (intro conjI impI)
  assume "st = ''Present'' \<or> st = ''Absent''"
  with assms show "post_attendance now (Some (att_employee_id a)) (Some (date a)) (Some st) db
              = ((409, Error ''Attendance already recorded for this date.''), db)"
    by (rule post_attendance_conflict)
next
  assume "statusIn \<noteq> Some ''Present'' \<and> statusIn \<noteq> Some ''Absent''"
  then show "fst (fst (post_attendance now (Some (att_employee_id a)) (Some (date a)) statusIn db)) = 400"
    by (simp add: post_attendance_bad_status)
next
  show "snd (post_attendance now (Some (att_employee_id a)) (Some (date a)) statusIn db) = db"
    using assms(2) by (rule post_attendance_existing)
next
  have "store_ok (snd (handle now' rq db))"
    using assms(1) by (rule store_ok_handle)
  then show "distinct (map (\<lambda>r. (att_employee_id r, date r)) (attendance (snd (handle now' rq db))))"
    by (simp add: store_ok_def)
next
  have "store_ok (serve rqs initDb)"
    using store_ok_initDb by (rule store_ok_serve)
  then show "distinct (map (\<lambda>r. (att_employee_id r, date r)) (attendance (serve rqs initDb)))"
    by (simp add: store_ok_def)
qed

theorem record_existing_pair_conflict_witness:
  "store_ok demo_store
   \<and> post_attendance ''t9'' (Some ''E1'') (Some ''2024-01-01'') (Some ''Absent'') demo_store
       = ((409, Error ''Attendance already recorded for this date.''), demo_store)
   \<and> fst (fst (post_attendance ''t9'' (Some ''E1'') (Some ''2024-01-01'') None demo_store)) = 400
   \<and> snd (post_attendance ''t9'' (Some ''E1'') (Some ''2024-01-01'') None demo_store) = demo_store"
proof -
  let ?a = "\<lparr>att_id = 1, att_employee_id = ''E1'', date = ''2024-01-01'', status = ''Present'',
      att_created_at = ''t2''\<rparr>"
  have ok: "store_ok demo_store"
    unfolding demo_store_def using store_ok_initDb by (rule store_ok_serve)
  have mem: "?a \<in> set (attendance demo_store)"
    by (simp add: demo_store_eq)
  have ne: "att_employee_id ?a \<noteq> []"
    by simp
  have v: "isValidDate (date ?a)"
    by code_simp
  show ?thesis
    using ok record_existing_pair_conflict [OF ok mem ne v, of "''Absent''" "''t9''" None]
    by simp
qed


section \<open>The summary\<close>

lemma remdups_replicate_append:
  "0 < n \<Longrightarrow> k \<notin> set ys \<Longrightarrow> remdups (replicate n k @ ys) = k # remdups ys"
proof (induction n)
  case 0
  then show ?case by simp
next
  case (Suc n)
  show ?case
  proof (cases "n = 0")
    case True
    with Suc.prems show ?thesis by simp
  next
    case False
    with Suc show ?thesis by simp
  qed
qed

lemma filter_same_key:
  "distinct (map f xs) \<Longrightarrow> x \<in> set xs \<Longrightarrow> filter (\<lambda>y. f y = f x) xs = [x]"
proof (induction xs)
  case Nil
  then show ?case by simp
next
  case (Cons y ys)
  show ?case
  proof (cases "x = y")
    case True
    have "f z \<noteq> f y" if "z \<in> set ys" for z
      using Cons.prems(1) that by (metis distinct.simps(2) imageI list.simps(9) set_map)
    then have "filter (\<lambda>z. f z = f y) ys = []"
      by (simp add: filter_empty_conv)
    with True show ?thesis by simp
  next
    case False
    with Cons have "filter (\<lambda>z. f z = f x) ys = [x]" "f y \<noteq> f x"
      by auto
    then show ?thesis by simp
  qed
qed

lemma block_cases:
  obtains "filter (join_on e) as = []"
      "(case filter (join_on e) as of [] \<Rightarrow> [(e, None)] | ms \<Rightarrow> map (\<lambda>a. (e, Some a)) ms) = [(e, None)]"
  | "filter (join_on e) as \<noteq> []"
      "(case filter (join_on e) as of [] \<Rightarrow> [(e, None)] | ms \<Rightarrow> map (\<lambda>a. (e, Some a)) ms)
         = map (\<lambda>a. (e, Some a)) (filter (join_on e) as)"
  by (cases "filter (join_on e) as") auto

lemma block_keys:
  "\<exists>n>0. map (\<lambda>(e, a). employee_id e)
       (case filter (join_on e) as of [] \<Rightarrow> [(e, None)] | ms \<Rightarrow> map (\<lambda>a. (e, Some a)) ms)
     = replicate n (employee_id e)"
proof (cases rule: block_cases [of e as])
  case 1
  then have "map (\<lambda>(e, a). employee_id e)
       (case filter (join_on e) as of [] \<Rightarrow> [(e, None)] | ms \<Rightarrow> map (\<lambda>a. (e, Some a)) ms)
     = replicate 1 (employee_id e)"
    by simp
  then show ?thesis by blast
next
  case 2
  then have "map (\<lambda>(e, a). employee_id e)
       (case filter (join_on e) as of [] \<Rightarrow> [(e, None)] | ms \<Rightarrow> map (\<lambda>a. (e, Some a)) ms)
     = replicate (length (filter (join_on e) as)) (employee_id e)"
    by (simp add: map_replicate_const comp_def)
  moreover have "0 < length (filter (join_on e) as)"
    using 2(1) by simp
  ultimately show ?thesis by blast
qed

lemma left_join_Cons:
  "left_join (e # es) as =
     (case filter (join_on e) as of [] \<Rightarrow> [(e, None)] | ms \<Rightarrow> map (\<lambda>a. (e, Some a)) ms)
     @ left_join es as"
  by (simp add: left_join_def)

lemma left_join_keys_subset:
  "set (map (\<lambda>(e, a). employee_id e) (left_join es as)) \<subseteq> employee_id ` set es"
  by (auto simp: left_join_def split: list.splits)

lemma left_join_keys:
  "distinct (map employee_id es) \<Longrightarrow>
   remdups (map (\<lambda>(e, a). employee_id e) (left_join es as)) = map employee_id es"
proof (induction es)
  case Nil
  then show ?case by (simp add: left_join_def)
next
  case (Cons e es)
  obtain n where n: "0 < n"
    "map (\<lambda>(e, a). employee_id e)
       (case filter (join_on e) as of [] \<Rightarrow> [(e, None)] | ms \<Rightarrow> map (\<lambda>a. (e, Some a)) ms)
     = replicate n (employee_id e)"
    using block_keys by blast
  have "employee_id e \<notin> set (map (\<lambda>(e, a). employee_id e) (left_join es as))"
    using Cons.prems left_join_keys_subset [of es as] by auto
  then have "remdups (replicate n (employee_id e) @ map (\<lambda>(e, a). employee_id e) (left_join es as))
     = employee_id e # remdups (map (\<lambda>(e, a). employee_id e) (left_join es as))"
    using n(1) by (rule remdups_replicate_append [rotated])
  with Cons n(2) show ?case
    by (simp add: left_join_Cons)
qed

lemma left_join_filter:
  "filter (\<lambda>(e, a). employee_id e = k) (left_join es as)
     = left_join (filter (\<lambda>e. employee_id e = k) es) as"
proof (induction es)
  case Nil
  then show ?case by (simp add: left_join_def)
next
  case (Cons e es)
  have "filter (\<lambda>(e, a). employee_id e = k)
          (case filter (join_on e) as of [] \<Rightarrow> [(e, None)] | ms \<Rightarrow> map (\<lambda>a. (e, Some a)) ms)
      = (if employee_id e = k
         then (case filter (join_on e) as of [] \<Rightarrow> [(e, None)] | ms \<Rightarrow> map (\<lambda>a. (e, Some a)) ms)
         else [])"
    by (cases rule: block_cases [of e as]) (simp_all add: filter_map comp_def)
  with Cons show ?case
    by (simp add: left_join_Cons)
qed

lemma aggregate_single:
  "aggregate (left_join [e] as) =
     [\<lparr>sum_employee_id = employee_id e, sum_full_name = full_name e,
       present_days = length (filter (join_on e) as)\<rparr>]"
proof (cases "filter (join_on e) as")
  case Nil
  then show ?thesis
    by (simp add: left_join_def aggregate_def)
next
  case (Cons a ms)
  then show ?thesis
    by (simp add: left_join_def aggregate_def filter_map comp_def)
qed

lemma grouped_rows:
  assumes "distinct (map employee_id es)"
  shows "concat (map aggregate (group_by_employee_id (left_join es as))) =
     map (\<lambda>e. \<lparr>sum_employee_id = employee_id e, sum_full_name = full_name e,
                present_days = length (filter (join_on e) as)\<rparr>) es"
proof -
  have "group_by_employee_id (left_join es as)
      = map (\<lambda>e. left_join (filter (\<lambda>e'. employee_id e' = employee_id e) es) as) es"
    by (simp add: group_by_employee_id_def left_join_keys [OF assms] left_join_filter comp_def)
  also have "\<dots> = map (\<lambda>e. left_join [e] as) es"
    using filter_same_key [OF assms] by (intro map_cong) simp_all
  finally show ?thesis
    by (simp add: comp_def aggregate_single)
qed


lemma perEmployee_mset:
  assumes "distinct (map employee_id (employees db))"
  shows "mset (perEmployee db) =
     mset (map (\<lambda>e. \<lparr>sum_employee_id = employee_id e, sum_full_name = full_name e,
                       present_days = length (filter (join_on e) (attendance db))\<rparr>) (employees db))"
  by (simp add: perEmployee_def grouped_rows [OF assms])

lemma perEmployee_sorted:
  "sorted_wrt (\<lambda>r r'. present_days r' < present_days r
                \<or> (present_days r = present_days r' \<and> sum_full_name r \<le> sum_full_name r'))
     (perEmployee db)"
proof -
  let ?key = "\<lambda>r. (- int (present_days r), sum_full_name r)"
  have "sorted (map ?key (perEmployee db))"
    unfolding perEmployee_def by (rule sorted_sort_key)
  then have "sorted_wrt (\<lambda>r r'. ?key r \<le> ?key r') (perEmployee db)"
    by (simp add: sorted_map)
  then show ?thesis
    by (rule sorted_wrt_mono_rel [rotated]) (auto simp: less_eq_prod_def)
qed

lemma one_owner:
  "distinct (map f es) \<Longrightarrow> k \<in> f ` set es \<Longrightarrow>
   sum_list (map (\<lambda>e. if f e = k then 1 else 0) es) = (1::nat)"
proof (induction es)
  case Nil
  then show ?case by simp
next
  case (Cons e es)
  show ?case
  proof (cases "f e = k")
    case True
    then have "\<forall>x\<in>set es. f x \<noteq> k"
      using Cons.prems(1) by (metis distinct.simps(2) imageI list.simps(9) set_map)
    then have "sum_list (map (\<lambda>e. if f e = k then 1 else 0) es) = (0::nat)"
      by (simp add: sum_list_eq_0_iff)
    with True show ?thesis by simp
  next
    case False
    with Cons show ?thesis by auto
  qed
qed

lemma count_by_owner:
  assumes "distinct (map f es)" and "\<forall>a\<in>set as. g a \<in> f ` set es"
  shows "sum_list (map (\<lambda>e. length (filter (\<lambda>a. f e = g a \<and> P a) as)) es) = length (filter P as)"
  using assms(2)
proof (induction as)
  case Nil
  then show ?case by simp
next
  case (Cons a as)
  have one: "sum_list (map (\<lambda>e. if f e = g a then 1 else 0) es) = (1::nat)"
    using assms(1) Cons.prems by (simp add: one_owner)
  have "sum_list (map (\<lambda>e. length (filter (\<lambda>a. f e = g a \<and> P a) (a # as))) es)
      = sum_list (map (\<lambda>e. (if f e = g a \<and> P a then 1 else 0)
                              + length (filter (\<lambda>a. f e = g a \<and> P a) as)) es)"
    by (intro arg_cong [where f = sum_list] map_cong) auto
  also have "\<dots> = sum_list (map (\<lambda>e. if f e = g a \<and> P a then 1 else 0) es)
                   + sum_list (map (\<lambda>e. length (filter (\<lambda>a. f e = g a \<and> P a) as)) es)"
    by (simp add: sum_list_addf)
  also have "sum_list (map (\<lambda>e. if f e = g a \<and> P a then 1 else 0) es) = (if P a then 1 else (0::nat))"
    using one by (cases "P a") simp_all
  also have "sum_list (map (\<lambda>e. length (filter (\<lambda>a. f e = g a \<and> P a) as)) es) = length (filter P as)"
    using Cons by simp
  finally show ?case by simp
qed

lemma sum_list_map_mset_cong:
  "mset xs = mset ys \<Longrightarrow> sum_list (map f xs) = sum_list (map (f :: 'a \<Rightarrow> nat) ys)"
  by (metis mset_map sum_mset_sum_list)

lemma sum_present_days:
  assumes "store_ok db"
  shows "sum_list (map present_days (perEmployee db))
     = length (filter (\<lambda>a. status a = ''Present'') (attendance db))"
proof -
  have d: "distinct (map employee_id (employees db))"
    and fk: "\<forall>a\<in>set (attendance db). att_employee_id a \<in> employee_id ` set (employees db)"
    using assms by (auto simp: store_ok_def list_all_iff)
  have "sum_list (map present_days (perEmployee db))
      = sum_list (map present_days
          (map (\<lambda>e. \<lparr>sum_employee_id = employee_id e, sum_full_name = full_name e,
                       present_days = length (filter (join_on e) (attendance db))\<rparr>) (employees db)))"
    using perEmployee_mset [OF d] by (rule sum_list_map_mset_cong)
  also have "\<dots> = sum_list (map (\<lambda>e. length (filter (join_on e) (attendance db))) (employees db))"
    by (simp add: comp_def)
  also have "\<dots> = length (filter (\<lambda>a. status a = ''Present'') (attendance db))"
    unfolding join_on_def using d fk by (rule count_by_owner)
  finally show ?thesis .
qed

lemma summary_store_eq:
  "summary_store =
     \<lparr>employees =
        [\<lparr>employee_id = ''E1'', full_name = ''Ann'', email = ''ann@x.com'', department = ''Eng'', created_at = ''t1''\<rparr>,
         \<lparr>employee_id = ''E2'', full_name = ''Bob'', email = ''bob@x.com'', department = ''Ops'', created_at = ''t3''\<rparr>,
         \<lparr>employee_id = ''E3'', full_name = ''Al'', email = ''al@x.com'', department = ''Eng'', created_at = ''t7''\<rparr>],
      attendance =
        [\<lparr>att_id = 1, att_employee_id = ''E1'', date = ''2024-01-01'', status = ''Present'', att_created_at = ''t2''\<rparr>,
         \<lparr>att_id = 2, att_employee_id = ''E1'', date = ''2024-01-15'', status = ''Absent'', att_created_at = ''t4''\<rparr>,
         \<lparr>att_id = 3, att_employee_id = ''E2'', date = ''2024-01-15'', status = ''Present'', att_created_at = ''t5''\<rparr>,
         \<lparr>att_id = 4, att_employee_id = ''E1'', date = ''2024-01-25'', status = ''Present'', att_created_at = ''t6''\<rparr>],
      sqlite_sequence = 4\<rparr>"
  by code_simp

lemma store_ok_summary_store: "store_ok summary_store"
  unfolding summary_store_def demo_store_def
  by (intro store_ok_serve store_ok_initDb)

text \<open>
  Claim C2.  In every store that satisfies the constraints of the schema, the
  \<open>presentByEmployee\<close> list of the summary holds exactly one entry per employee: as a
  multiset it is the employees' rows, each with its \<open>employee_id\<close>, its \<open>full_name\<close> and the
  number of its \<open>Present\<close> records, and no \<open>employee_id\<close> occurs twice.  An employee without
  a \<open>Present\<close> record appears with \<open>present_days = 0\<close>.  The entries are ordered by
  \<open>present_days\<close> descending, ties by \<open>full_name\<close> ascending.
\<close>

theorem summary_one_entry_per_employee:
  assumes "store_ok db"
  shows "mset (perEmployee db) =
       mset (map (\<lambda>e. \<lparr>sum_employee_id = employee_id e, sum_full_name = full_name e,
                         present_days = length (filter (\<lambda>a. att_employee_id a = employee_id e
                                                        \<and> status a = ''Present'') (attendance db))\<rparr>)
                 (employees db))
    \<and> distinct (map sum_employee_id (perEmployee db))
    \<and> (\<forall>e\<in>set (employees db).
          (\<forall>a\<in>set (attendance db). att_employee_id a = employee_id e \<longrightarrow> status a \<noteq> ''Present'') \<longrightarrow>
          \<lparr>sum_employee_id = employee_id e, sum_full_name = full_name e, present_days = 0\<rparr>
            \<in> set (perEmployee db))
    \<and> sorted_wrt (\<lambda>r r'. present_days r' < present_days r
                    \<or> (present_days r = present_days r' \<and> sum_full_name r \<le> sum_full_name r'))
         (perEmployee db)
    \<and> (\<exists>t. get_summary db = (200, Summary t (perEmployee db)))"
proof -
  let ?row = "\<lambda>e. \<lparr>sum_employee_id = employee_id e, sum_full_name = full_name e,
                     present_days = length (filter (join_on e) (attendance db))\<rparr>"
  have d: "distinct (map employee_id (employees db))"
    using assms by (simp add: store_ok_def)
  have m: "mset (perEmployee db) = mset (map ?row (employees db))"
    using d by (rule perEmployee_mset)
  have j: "join_on e = (\<lambda>a. att_employee_id a = employee_id e \<and> status a = ''Present'')" for e
    by (auto simp: join_on_def)
  have "mset (map sum_employee_id (perEmployee db)) = mset (map employee_id (employees db))"
    by (simp add: m multiset.map_comp comp_def)
  then have dist: "distinct (map sum_employee_id (perEmployee db))"
    using d by (metis mset_eq_imp_distinct_iff)
  have zero: "\<lparr>sum_employee_id = employee_id e, sum_full_name = full_name e, present_days = 0\<rparr>
            \<in> set (perEmployee db)"
    if "e \<in> set (employees db)"
      and "\<forall>a\<in>set (attendance db). att_employee_id a = employee_id e \<longrightarrow> status a \<noteq> ''Present''"
    for e
  proof -
    have "filter (join_on e) (attendance db) = []"
      using that(2) by (auto simp: filter_empty_conv join_on_def)
    then have "?row e = \<lparr>sum_employee_id = employee_id e, sum_full_name = full_name e, present_days = 0\<rparr>"
      by simp
    moreover have "?row e \<in> set (map ?row (employees db))"
      using that(1) by simp
    moreover have "set (perEmployee db) = set (map ?row (employees db))"
      using m by (rule mset_eq_setD)
    ultimately show ?thesis by simp
  qed
  have "\<exists>t. get_summary db = (200, Summary t (perEmployee db))"
    by (simp add: get_summary_def)
  with m dist zero perEmployee_sorted [of db] show ?thesis
    unfolding j by simp
qed

theorem summary_one_entry_per_employee_witness:
  "store_ok summary_store
   \<and> mset (perEmployee summary_store) =
       {#\<lparr>sum_employee_id = ''E1'', sum_full_name = ''Ann'', present_days = 2\<rparr>,
         \<lparr>sum_employee_id = ''E2'', sum_full_name = ''Bob'', present_days = 1\<rparr>,
         \<lparr>sum_employee_id = ''E3'', sum_full_name = ''Al'', present_days = 0\<rparr>#}
   \<and> distinct (map sum_employee_id (perEmployee summary_store))"
proof -
  note t = summary_one_entry_per_employee [OF store_ok_summary_store]
  have "mset (perEmployee summary_store) =
       mset (map (\<lambda>e. \<lparr>sum_employee_id = employee_id e, sum_full_name = full_name e,
                         present_days = length (filter (\<lambda>a. att_employee_id a = employee_id e
                                                        \<and> status a = ''Present'') (attendance summary_store))\<rparr>)
                 (employees summary_store))"
    using t by (rule conjunct1)
  also have "\<dots> = {#\<lparr>sum_employee_id = ''E1'', sum_full_name = ''Ann'', present_days = 2\<rparr>,
         \<lparr>sum_employee_id = ''E2'', sum_full_name = ''Bob'', present_days = 1\<rparr>,
         \<lparr>sum_employee_id = ''E3'', sum_full_name = ''Al'', present_days = 0\<rparr>#}"
    by (simp add: summary_store_eq)
  finally have m: "mset (perEmployee summary_store) =
       {#\<lparr>sum_employee_id = ''E1'', sum_full_name = ''Ann'', present_days = 2\<rparr>,
         \<lparr>sum_employee_id = ''E2'', sum_full_name = ''Bob'', present_days = 1\<rparr>,
         \<lparr>sum_employee_id = ''E3'', sum_full_name = ''Al'', present_days = 0\<rparr>#}" .
  have d: "distinct (map sum_employee_id (perEmployee summary_store))"
    using t by (elim conjE)
  from store_ok_summary_store m d show ?thesis
    by (intro conjI)
qed

text \<open>
  Claim C3.  In every store that satisfies the constraints of the schema, \<open>totals.present\<close>
  of the summary, the number of attendance records with status \<open>Present\<close>, is the sum of
  the \<open>present_days\<close> of the entries of \<open>presentByEmployee\<close>.
\<close>

theorem summary_present_total_is_sum:
  assumes "store_ok db"
  shows "\<exists>t rows. get_summary db = (200, Summary t rows)
     \<and> total_present t = length (filter (\<lambda>a. status a = ''Present'') (attendance db))
     \<and> total_present t = sum_list (map present_days rows)"
  using sum_present_days [OF assms] by (simp add: get_summary_def)


theorem summary_present_total_is_sum_witness:
  "store_ok summary_store
   \<and> (\<exists>t rows. get_summary summary_store = (200, Summary t rows)
         \<and> total_present t = 3 \<and> sum_list (map present_days rows) = 3)"
proof -
  obtain t rows where g: "get_summary summary_store = (200, Summary t rows)"
    and p: "total_present t = length (filter (\<lambda>a. status a = ''Present'') (attendance summary_store))"
    and s: "total_present t = sum_list (map present_days rows)"
    using summary_present_total_is_sum [OF store_ok_summary_store] by (elim exE conjE)
  have "length (filter (\<lambda>a. status a = ''Present'') (attendance summary_store)) = 3"
    by (simp add: summary_store_eq)
  with p s have "total_present t = 3" "sum_list (map present_days rows) = 3"
    by simp_all
  with g store_ok_summary_store show ?thesis
    by (intro conjI exI)
qed


end
